theory Spec2Isabelle
  imports Main
begin

section \<open>Python strings\<close>

text \<open>
  Page text, keywords and manifest ids are Python \<^verbatim>\<open>str\<close> values. They are modelled
  as \<^typ>\<open>string\<close>, a \<^typ>\<open>char\<close> standing for one code point below 256 (Latin-1); text
  with code points beyond that range is outside the model. On this range
  \<^verbatim>\<open>str.lower\<close> moves \<^verbatim>\<open>A-Z\<close> and the accented capitals (192 to 222, the
  multiplication sign 215 apart) up by 32, and \<^verbatim>\<open>str.strip\<close>/\<^verbatim>\<open>str.split\<close> treat
  the code points 9-13, 28-32, 133 and 160 as white space.
\<close>

definition lower_char :: "char \<Rightarrow> char" where
  "lower_char c =
     (let n = (of_char c :: nat) in
      if (65 \<le> n \<and> n \<le> 90) \<or> (192 \<le> n \<and> n \<le> 222 \<and> n \<noteq> 215)
      then char_of (n + 32) else c)"

definition lower :: "string \<Rightarrow> string" where
  "lower s = map lower_char s"

definition is_space :: "char \<Rightarrow> bool" where
  "is_space c = ((of_char c :: nat) \<in> {9, 10, 11, 12, 13, 28, 29, 30, 31, 32, 133, 160})"

definition strip :: "string \<Rightarrow> string" where
  "strip s = rev (dropWhile is_space (rev (dropWhile is_space s)))"

text \<open>\<^verbatim>\<open>s.split()\<close>: the maximal runs of characters that are not white space.\<close>

fun split_from :: "string \<Rightarrow> string \<Rightarrow> string list" where
  "split_from cur [] = (if cur = [] then [] else [cur])"
| "split_from cur (c # cs) =
     (if is_space c then (if cur = [] then split_from [] cs else cur # split_from [] cs)
      else split_from (cur @ [c]) cs)"

definition split_ws :: "string \<Rightarrow> string list" where
  "split_ws s = split_from [] s"

text \<open>\<^verbatim>\<open>pat in s\<close> on strings: \<open>pat\<close> occurs in \<open>s\<close> as a contiguous substring.\<close>

fun starts_with :: "string \<Rightarrow> string \<Rightarrow> bool" where
  "starts_with [] s = True"
| "starts_with (p # ps) [] = False"
| "starts_with (p # ps) (c # cs) = (p = c \<and> starts_with ps cs)"

fun str_in :: "string \<Rightarrow> string \<Rightarrow> bool" where
  "str_in pat [] = (pat = [])"
| "str_in pat (c # cs) = (starts_with pat (c # cs) \<or> str_in pat cs)"

text \<open>
  \<^verbatim>\<open>sum(1 for kw in kws if kw in s)\<close> and \<^verbatim>\<open>any(kw in s for kw in kws)\<close>, the two
  shapes in which every keyword table of the module is used.
\<close>

definition count_matches :: "string list \<Rightarrow> string \<Rightarrow> nat" where
  "count_matches kws s = length (filter (\<lambda>kw. str_in kw s) kws)"

definition any_match :: "string list \<Rightarrow> string \<Rightarrow> bool" where
  "any_match kws s = list_ex (\<lambda>kw. str_in kw s) kws"

section \<open>ContentFilter\<close>

definition NUTRITION_KEYWORDS :: "string list" where
  "NUTRITION_KEYWORDS =
     [''guideline'', ''recommendation'', ''serving'', ''daily value'', ''mg'', ''gram'',
      ''sodium'', ''sugar'', ''fat'', ''vitamin'', ''mineral'', ''calorie'', ''dietary'',
      ''food group'', ''vegetable'', ''fruit'', ''dairy'', ''protein'', ''grain'',
      ''pregnant'', ''infant'', ''child'', ''adult'', ''elderly'', ''limit'', ''consume'',
      ''adequate intake'', ''tolerable upper'', ''reference value'', ''dietary allowance'']"

definition USDA_ADMIN_PATTERNS :: "string list" where
  "USDA_ADMIN_PATTERNS =
     [''table of contents'', ''message from the secretaries'', ''acknowledgments'',
      ''appendix'', ''bibliography'', ''references'', ''about this edition'',
      ''how to use this document'', ''part'', ''chapter'', ''section'', ''figure'',
      ''suggested citation'', ''dietaryguidelines.gov'', ''isbn'',
      ''printed in the united states'', ''government printing office'',
      ''library of congress'', ''executive summary'', ''key recommendations'',
      ''page x'', ''page xi'', ''page xii'']"

text \<open>The copyright sign, code point 169.\<close>

definition copyright_sign :: string where
  "copyright_sign = [CHR 0xA9]"

text \<open>
  \<^verbatim>\<open>ContentFilter.is_low_value_page(text, page_num, total_pages, nutrition_matches)\<close>.
  The rules are tried in the order of the source; \<open>text_lower\<close> is the lowered and
  stripped text here.
\<close>

definition is_low_value_page :: "string \<Rightarrow> nat \<Rightarrow> nat \<Rightarrow> nat \<Rightarrow> bool" where
  "is_low_value_page text page_num total_pages nutrition_matches =
     (if text = [] \<or> length (strip text) = 0 then True
      else
        let text_lower = strip (lower text);
            word_count = length (split_ws text_lower)
        in
          if page_num \<le> 15 \<and> count_matches USDA_ADMIN_PATTERNS text_lower \<ge> 1 then True
          else if page_num \<le> 20 \<and> nutrition_matches < 3 then True
          else if str_in ''table of contents'' text_lower \<and> str_in ''page'' text_lower
                  \<and> word_count < 500 then True
          else if (str_in ''copyright'' text_lower \<or> str_in copyright_sign text_lower)
                  \<and> str_in ''reserved'' text_lower \<and> word_count < 300 then True
          else False)"

text \<open>
  \<^verbatim>\<open>ContentFilter.detect_life_stages(text)\<close>. The term lists are written inline in
  the source and are named here. The source collects the tags in a Python \<^verbatim>\<open>set\<close>
  and returns \<^verbatim>\<open>list(life_stages)\<close>, whose order is the set's iteration order; the
  model keeps the set.
\<close>

definition pregnancy_terms :: "string list" where
  "pregnancy_terms = [''pregnant'', ''pregnancy'', ''maternal'', ''antenatal'']"

definition breastfeeding_terms :: "string list" where
  "breastfeeding_terms = [''breastfeed'', ''lactation'', ''breast milk'']"

definition infant_terms :: "string list" where
  "infant_terms = [''infant'', ''baby'', ''birth'', ''newborn'', ''0-12 months'']"

definition child_terms :: "string list" where
  "child_terms = [''child'', ''children'', ''adolescent'', ''teen'', ''toddler'', ''preschool'']"

definition adult_terms :: "string list" where
  "adult_terms = [''adult'', ''adults'', ''middle aged'']"

definition older_terms :: "string list" where
  "older_terms = [''older'', ''elderly'', ''senior'', ''65+'', ''aging'']"

definition detect_life_stages :: "string \<Rightarrow> string set" where
  "detect_life_stages text =
     (let text_lower = lower text;
          s1 = (if any_match pregnancy_terms text_lower then {''pregnant''} else {});
          s2 = (if any_match breastfeeding_terms text_lower
                then insert ''breastfeeding'' s1 else s1);
          s3 = (if any_match infant_terms text_lower then insert ''infants'' s2 else s2);
          s4 = (if any_match child_terms text_lower then insert ''children_teens'' s3 else s3);
          s5 = (if any_match adult_terms text_lower
                then (if any_match older_terms text_lower
                      then insert ''older_adults'' s4 else insert ''adults'' s4)
                else s4);
          life_stages = (if str_in ''athlete'' text_lower \<or> str_in ''sports'' text_lower
                         then insert ''athletes'' s5 else s5)
      in if life_stages \<noteq> {} then life_stages else {''general''})"

section \<open>TableProcessor\<close>

definition nutrient_indicators :: "string list" where
  "nutrient_indicators =
     [''daily value'', ''dv%'', ''recommended intake'', ''adequate intake'',
      ''tolerable upper intake level'', ''ul'', ''ai'', ''rda'',
      ''food sources of'', ''milligrams per day'', ''grams per day'',
      ''sodium recommendation'', ''sugar recommendation'', ''fat recommendation'',
      ''vitamin d'', ''calcium'', ''potassium'', ''fiber'', ''nutrient'']"

definition non_nutrient_indicators :: "string list" where
  "non_nutrient_indicators =
     [''table of contents'', ''figure'', ''appendix'', ''bibliography'',
      ''references'', ''acknowledgments'', ''contributors'', ''reviewers'',
      ''chapter'', ''section'', ''part'', ''page number'']"

definition detect_nutrient_tables :: "string \<Rightarrow> bool" where
  "detect_nutrient_tables text =
     (let text_lower = lower text;
          nutrient_count = count_matches nutrient_indicators text_lower;
          has_disqualifier = any_match non_nutrient_indicators text_lower
      in nutrient_count \<ge> 2 \<and> \<not> has_disqualifier)"

definition extract_table_content :: "string \<Rightarrow> string" where
  "extract_table_content text =
     (if \<not> detect_nutrient_tables text then text
      else ''[NUTRIENT_TABLE_START]'' @ [CHR 0x0A] @ text @ [CHR 0x0A] @ ''[NUTRIENT_TABLE_END]'')"

section \<open>Values, errors and the outside world\<close>

text \<open>
  Exceptions are values: a function that can raise returns \<open>error + 'a\<close>, \<open>Inl\<close> the
  exception. Only the exception's class is kept, not its message.
\<close>

datatype error = FileNotFoundError | ValueError | KeyError | TypeError | AttributeError

text \<open>
  What \<^verbatim>\<open>yaml.safe_load\<close> can return. A mapping is an association list under string
  keys (the parser builds a \<^verbatim>\<open>dict\<close>, so the keys are distinct).
\<close>

datatype yaml =
    YNull
  | YBool bool
  | YInt int
  | YStr string
  | YSeq "yaml list"
  | YMap "(string \<times> yaml) list"

text \<open>\<^verbatim>\<open>entry[k]\<close>: \<^verbatim>\<open>KeyError\<close> on a mapping without the key, \<^verbatim>\<open>TypeError\<close> on
  anything that is not a mapping.\<close>

fun getitem :: "yaml \<Rightarrow> string \<Rightarrow> error + yaml" where
  "getitem (YMap kvs) k = (case map_of kvs k of None \<Rightarrow> Inl KeyError | Some v \<Rightarrow> Inr v)"
| "getitem _ k = Inl TypeError"

text \<open>\<^verbatim>\<open>entry.get(k, default)\<close>.\<close>

fun dict_get :: "yaml \<Rightarrow> string \<Rightarrow> yaml \<Rightarrow> error + yaml" where
  "dict_get (YMap kvs) k d = Inr (case map_of kvs k of None \<Rightarrow> d | Some v \<Rightarrow> v)"
| "dict_get _ k d = Inl AttributeError"

text \<open>\<^verbatim>\<open>v.lower()\<close> on a value of the manifest: only a string has the method.\<close>

fun lower_method :: "yaml \<Rightarrow> error + string" where
  "lower_method (YStr s) = Inr (lower s)"
| "lower_method _ = Inl AttributeError"

text \<open>\<^verbatim>\<open>Path(v)\<close>: only a string is a path; the path is kept as its string.\<close>

fun Path :: "yaml \<Rightarrow> error + string" where
  "Path (YStr s) = Inr s"
| "Path _ = Inl TypeError"

text \<open>\<^verbatim>\<open>os.path.basename\<close>: what follows the last slash.\<close>

definition basename :: "string \<Rightarrow> string" where
  "basename p = rev (takeWhile (\<lambda>c. c \<noteq> CHR ''/'') (rev p))"

text \<open>
  One page of an opened PDF, as \<^verbatim>\<open>reader.pages[i].extract_text()\<close> behaves on it: it
  returns text, returns \<^verbatim>\<open>None\<close>, or raises.
\<close>

datatype page = Text string | NoText | Raises

text \<open>\<^verbatim>\<open>page.extract_text() or ""\<close>; \<open>None\<close> when the call raises.\<close>

fun extract_text :: "page \<Rightarrow> string option" where
  "extract_text (Text t) = Some t"
| "extract_text NoText = Some []"
| "extract_text Raises = None"

text \<open>
  The file system and the two parsers, read but never written by the module:
  \<open>path_exists\<close> is \<^verbatim>\<open>Path.exists\<close>, \<open>safe_load\<close> opens and parses the manifest
  (\<open>None\<close> when \<^verbatim>\<open>open\<close> or \<^verbatim>\<open>yaml.safe_load\<close> raises), \<open>PdfReader\<close> opens a PDF
  and gives its pages (\<open>None\<close> when it raises).
\<close>

record env =
  path_exists :: "string \<Rightarrow> bool"
  safe_load :: "string \<Rightarrow> yaml option"
  PdfReader :: "string \<Rightarrow> page list option"

text \<open>
  A LangChain \<^verbatim>\<open>Document\<close>: the text and the metadata dictionary, here the
  dictionary \<^verbatim>\<open>DocumentMetadata.to_dict\<close> builds, in its key order.
\<close>

datatype mval = MStr string | MInt int | MBool bool | MYaml yaml | MTags "string set"

record document =
  page_content :: string
  metadata :: "(string \<times> mval) list"

section \<open>process_single_document\<close>

text \<open>The document type, from the manifest id alone (lines 231 to 236).\<close>

definition determine_document_type :: "string \<Rightarrow> string" where
  "determine_document_type id_lower =
     (if any_match [''nutrient'', ''sodium'', ''sugar'', ''fat'', ''vitamin''] id_lower
      then ''nutrient_specific''
      else if str_in ''summary'' id_lower \<or> str_in ''executive'' id_lower then ''summary''
      else ''core_guideline'')"

definition medical_triggers :: "string list" where
  "medical_triggers =
     [''pregnant'', ''breastfeed'', ''infant'', ''medical condition'', ''disease'',
      ''disorder'', ''illness'']"

definition professional_triggers :: "string list" where
  "professional_triggers =
     [''professional use only'', ''healthcare provider'', ''clinician'', ''prescribe'',
      ''diagnose'', ''treat'']"

text \<open>The safety level of an admitted page (lines 270 to 281).\<close>

definition determine_safety_level :: "nat \<Rightarrow> string \<Rightarrow> string" where
  "determine_safety_level nutrition_matches text_lower =
     (if nutrition_matches < 3 then ''administrative''
      else
        let safety_level = ''general'';
            safety_level = (if any_match medical_triggers text_lower
                            then ''medical_caution'' else safety_level)
        in if any_match professional_triggers text_lower
           then ''professional_use_only'' else safety_level)"

text \<open>
  The body of the page loop (lines 244 to 304): \<open>None\<close> when the page is skipped, by
  the filter or because something in the body raised.
\<close>

definition process_page ::
  "yaml \<Rightarrow> string \<Rightarrow> string \<Rightarrow> nat \<Rightarrow> nat \<Rightarrow> page \<Rightarrow> document option" where
  "process_page entry file_path doc_type total_pages page_num page =
     (case extract_text page of
        None \<Rightarrow> None
      | Some text \<Rightarrow>
          let text_lower = lower text;
              nutrition_matches = count_matches NUTRITION_KEYWORDS text_lower
          in
            if is_low_value_page text page_num total_pages nutrition_matches then None
            else
              let life_stages = (if nutrition_matches \<ge> 3 then detect_life_stages text
                                 else {''general''});
                  contains_tables = detect_nutrient_tables text;
                  content = (if contains_tables then extract_table_content text else text);
                  safety_level = determine_safety_level nutrition_matches text_lower
              in
                (case getitem entry ''id'' of
                   Inl e \<Rightarrow> None
                 | Inr source_id \<Rightarrow>
                     (case dict_get entry ''topics'' (YSeq [YStr ''general'']) of
                        Inl e \<Rightarrow> None
                      | Inr topics \<Rightarrow>
                          Some \<lparr>page_content = content,
                                metadata =
                                  [(''source'', MYaml source_id),
                                   (''source_file'', MStr (basename file_path)),
                                   (''page'', MInt (int page_num)),
                                   (''document_type'', MStr doc_type),
                                   (''topics'', MYaml topics),
                                   (''life_stages'', MTags life_stages),
                                   (''contains_tables'', MBool contains_tables),
                                   (''safety_level'', MStr safety_level)]\<rparr>)))"

text \<open>The pages are numbered from 1, in the order of the file.\<close>

definition process_pages :: "yaml \<Rightarrow> string \<Rightarrow> string \<Rightarrow> page list \<Rightarrow> document list" where
  "process_pages entry file_path doc_type pages =
     List.map_filter (\<lambda>(page_num, page).
         process_page entry file_path doc_type (length pages) page_num page)
       (enumerate 1 pages)"

definition process_single_document :: "env \<Rightarrow> yaml \<Rightarrow> error + document list" where
  "process_single_document env entry =
     (case getitem entry ''path'' of
        Inl e \<Rightarrow> Inl e
      | Inr path_value \<Rightarrow>
     (case Path path_value of
        Inl e \<Rightarrow> Inl e
      | Inr file_path \<Rightarrow>
          if \<not> path_exists env file_path then
            (case getitem entry ''id'' of Inl e \<Rightarrow> Inl e | Inr _ \<Rightarrow> Inl FileNotFoundError)
          else
            (case PdfReader env file_path of
               None \<Rightarrow> Inl ValueError
             | Some pages \<Rightarrow>
            (case getitem entry ''id'' of
               Inl e \<Rightarrow> Inl e
             | Inr id_value \<Rightarrow>
            (case lower_method id_value of
               Inl e \<Rightarrow> Inl e
             | Inr id_lower \<Rightarrow>
                 Inr (process_pages entry file_path (determine_document_type id_lower) pages))))))"

section \<open>validate_processed_chunks\<close>

definition admin_keywords :: "string list" where
  "admin_keywords =
     [''citation'', ''downloaded'', ''publication'', ''printed'', ''isbn'',
      ''government printing'', ''congress'', ''copyright'', ''reserved'',
      ''acknowledgments'', ''funding'', ''contract'', ''prepared by'',
      ''submitted to'', ''drafted by'', ''suggested citation'', ''dietaryguidelines.gov'']"

text \<open>The flagging condition of lines 198 to 200, on the lowered text of a chunk.\<close>

definition is_problematic :: "document \<Rightarrow> bool" where
  "is_problematic doc =
     (let text_lower = lower (page_content doc);
          admin_count = count_matches admin_keywords text_lower;
          nutrition_count = count_matches NUTRITION_KEYWORDS text_lower;
          word_count = length (split_ws text_lower)
      in (admin_count \<ge> 2 \<and> nutrition_count < 2 \<and> word_count < 300)
         \<or> str_in ''suggested citation'' text_lower
         \<or> (str_in ''dietaryguidelines.gov'' text_lower \<and> nutrition_count < 3))"

text \<open>
  One row per flagged chunk: index, source, page, the three counts and a preview.
  \<^verbatim>\<open>doc.metadata['source']\<close> and \<^verbatim>\<open>doc.metadata['page']\<close> raise \<^verbatim>\<open>KeyError\<close> on a
  document without those keys, and then the whole function raises. The metadata is
  read for a flagged chunk only.
\<close>

type_synonym problem = "nat \<times> mval \<times> mval \<times> nat \<times> nat \<times> nat \<times> string"

definition preview :: "string \<Rightarrow> string" where
  "preview content =
     map (\<lambda>c. if c = CHR 0x0A then CHR '' '' else c) (take 150 content) @ ''...''"

definition problem_row :: "nat \<Rightarrow> document \<Rightarrow> error + problem" where
  "problem_row i doc =
     (let text_lower = lower (page_content doc);
          admin_count = count_matches admin_keywords text_lower;
          nutrition_count = count_matches NUTRITION_KEYWORDS text_lower;
          word_count = length (split_ws text_lower)
      in
        (case map_of (metadata doc) ''source'' of
           None \<Rightarrow> Inl KeyError
         | Some source \<Rightarrow>
             (case map_of (metadata doc) ''page'' of
                None \<Rightarrow> Inl KeyError
              | Some pg \<Rightarrow>
                  Inr (i, source, pg, admin_count, nutrition_count, word_count,
                       preview (page_content doc)))))"

fun validate_loop :: "(nat \<times> document) list \<Rightarrow> problem list \<Rightarrow> error + problem list" where
  "validate_loop [] problematic_chunks = Inr problematic_chunks"
| "validate_loop ((i, doc) # rest) problematic_chunks =
     (if is_problematic doc then
        (case problem_row i doc of
           Inl e \<Rightarrow> Inl e
         | Inr row \<Rightarrow> validate_loop rest (problematic_chunks @ [row]))
      else validate_loop rest problematic_chunks)"

definition validate_processed_chunks :: "document list \<Rightarrow> error + problem list" where
  "validate_processed_chunks documents = validate_loop (enumerate 0 documents) []"

section \<open>load_and_preprocess_documents\<close>

text \<open>
  \<^verbatim>\<open>len(corpus)\<close> and \<^verbatim>\<open>for entry in corpus\<close>: a sequence gives its items, a mapping
  its keys, a string its characters; the other values have no length.
\<close>

fun manifest_entries :: "yaml \<Rightarrow> error + yaml list" where
  "manifest_entries (YSeq xs) = Inr xs"
| "manifest_entries (YMap kvs) = Inr (map (\<lambda>kv. YStr (fst kv)) kvs)"
| "manifest_entries (YStr s) = Inr (map (\<lambda>c. YStr [c]) s)"
| "manifest_entries _ = Inl TypeError"

text \<open>The body of the \<^verbatim>\<open>try\<close> of the manifest loop (lines 342 to 354).\<close>

definition entry_body :: "env \<Rightarrow> yaml \<Rightarrow> error + document list" where
  "entry_body env entry =
     (case getitem entry ''id'' of
        Inl e \<Rightarrow> Inl e
      | Inr _ \<Rightarrow>
     (case dict_get entry ''source'' (YStr ''Unknown'') of
        Inl e \<Rightarrow> Inl e
      | Inr _ \<Rightarrow>
     (case getitem entry ''path'' of
        Inl e \<Rightarrow> Inl e
      | Inr path_value \<Rightarrow>
     (case Path path_value of
        Inl e \<Rightarrow> Inl e
      | Inr doc_path \<Rightarrow>
          if \<not> path_exists env doc_path then Inl FileNotFoundError
          else process_single_document env entry))))"

text \<open>
  The manifest loop (lines 340 to 359) over the state \<open>(all_documents, successful_docs,
  failed_docs)\<close>. The handler of the \<^verbatim>\<open>try\<close> counts the failure and then formats
  \<^verbatim>\<open>entry['id']\<close> into its log line; that subscript is outside the \<^verbatim>\<open>try\<close>, so
  an exception of it leaves the loop.
\<close>

fun manifest_loop ::
  "env \<Rightarrow> yaml list \<Rightarrow> document list \<times> nat \<times> nat \<Rightarrow> error + document list \<times> nat \<times> nat" where
  "manifest_loop env [] st = Inr st"
| "manifest_loop env (entry # rest) (all_documents, successful_docs, failed_docs) =
     (case entry_body env entry of
        Inr docs \<Rightarrow>
          manifest_loop env rest (all_documents @ docs, successful_docs + 1, failed_docs)
      | Inl e \<Rightarrow>
          (case getitem entry ''id'' of
             Inl e' \<Rightarrow> Inl e'
           | Inr _ \<Rightarrow> manifest_loop env rest (all_documents, successful_docs, failed_docs + 1)))"

text \<open>
  The validation at the end of the loader (lines 366 to 403), the spec's
  CorpusValidator: the flagged indices are removed, an exception of the flagging
  falls back to the whole list, and an emptied list is an error.
\<close>

definition validate_and_clean :: "document list \<Rightarrow> error + document list" where
  "validate_and_clean all_documents =
     (case validate_processed_chunks all_documents of
        Inl e \<Rightarrow> Inr all_documents
      | Inr problematic \<Rightarrow>
          if problematic \<noteq> [] then
            let indices_to_remove = set (map fst problematic);
                cleaned_documents =
                  map snd (filter (\<lambda>(i, doc). i \<notin> indices_to_remove)
                                  (enumerate 0 all_documents))
            in if cleaned_documents = [] then Inl ValueError else Inr cleaned_documents
          else Inr all_documents)"

definition load_and_preprocess_documents :: "env \<Rightarrow> string \<Rightarrow> error + document list" where
  "load_and_preprocess_documents env manifest_path =
     (if \<not> path_exists env manifest_path then Inl FileNotFoundError
      else
        (case safe_load env manifest_path of
           None \<Rightarrow> Inl ValueError
         | Some corpus \<Rightarrow>
        (case manifest_entries corpus of
           Inl e \<Rightarrow> Inl ValueError
         | Inr entries \<Rightarrow>
        (case manifest_loop env entries ([], 0, 0) of
           Inl e \<Rightarrow> Inl e
         | Inr (all_documents, successful_docs, failed_docs) \<Rightarrow>
             validate_and_clean all_documents))))"

section \<open>Sample inputs\<close>

text \<open>The manifest entry of the spec's end-to-end scenario A.\<close>

definition sample_entry :: yaml where
  "sample_entry =
     YMap [(''id'', YStr ''dga_2020''), (''path'', YStr ''x.pdf''),
           (''topics'', YSeq [YStr ''sodium''])]"

text \<open>
  A small world for the loader: manifests with an entry whose only admitted page is
  flagged, with a missing file followed by a good one, with a missing file alone, with
  an entry that has no \<^verbatim>\<open>id\<close>, and the manifest of scenario A.
\<close>

definition cite_entry :: yaml where
  "cite_entry = YMap [(''id'', YStr ''who_sodium''), (''path'', YStr ''cite.pdf'')]"

definition guide_entry :: yaml where
  "guide_entry = YMap [(''id'', YStr ''guide''), (''path'', YStr ''guide.pdf'')]"

definition missing_entry :: yaml where
  "missing_entry = YMap [(''id'', YStr ''lost''), (''path'', YStr ''lost.pdf'')]"

definition no_id_entry :: yaml where
  "no_id_entry = YMap [(''path'', YStr ''lost.pdf'')]"

definition sample_env :: env where
  "sample_env =
     \<lparr>path_exists = (\<lambda>p. p \<in> set [''cite.yaml'', ''guide.yaml'', ''missing.yaml'', ''no_id.yaml'',
                                      ''scenario_a.yaml'', ''cite.pdf'', ''guide.pdf'', ''x.pdf'']),
      safe_load = (\<lambda>p.
         if p = ''cite.yaml'' then Some (YSeq [cite_entry])
         else if p = ''guide.yaml'' then Some (YSeq [missing_entry, guide_entry])
         else if p = ''missing.yaml'' then Some (YSeq [missing_entry])
         else if p = ''no_id.yaml'' then Some (YSeq [no_id_entry, guide_entry])
         else if p = ''scenario_a.yaml'' then Some (YSeq [sample_entry])
         else None),
      PdfReader = (\<lambda>p.
         if p = ''cite.pdf''
         then Some (replicate 15 NoText
                    @ [Text ''Suggested citation: sodium, sugar and fat guideline''])
         else if p = ''guide.pdf''
         then Some (replicate 20 NoText
                    @ [Text ''Suggested citation: USDA (2020).'',
                       Text ''Adults should limit sodium to 2300 mg per day.''])
         else if p = ''x.pdf''
         then Some [Text ''Table of Contents ... page iv'',
                    Text ''Sodium daily value 2300 mg adults limit'']
         else None)\<rparr>"

definition cite_chunk :: document where
  "cite_chunk =
     \<lparr>page_content = ''Suggested citation: sodium, sugar and fat guideline'',
      metadata =
        [(''source'', MYaml (YStr ''who_sodium'')), (''source_file'', MStr ''cite.pdf''),
         (''page'', MInt 16), (''document_type'', MStr ''nutrient_specific''),
         (''topics'', MYaml (YSeq [YStr ''general''])),
         (''life_stages'', MTags {''general''}),
         (''contains_tables'', MBool False),
         (''safety_level'', MStr ''general'')]\<rparr>"

definition citation_chunk :: document where
  "citation_chunk =
     \<lparr>page_content = ''Suggested citation: USDA (2020).'',
      metadata =
        [(''source'', MYaml (YStr ''guide'')), (''source_file'', MStr ''guide.pdf''),
         (''page'', MInt 21), (''document_type'', MStr ''core_guideline''),
         (''topics'', MYaml (YSeq [YStr ''general''])),
         (''life_stages'', MTags {''general''}),
         (''contains_tables'', MBool False),
         (''safety_level'', MStr ''administrative'')]\<rparr>"

definition guide_chunk :: document where
  "guide_chunk =
     \<lparr>page_content = ''Adults should limit sodium to 2300 mg per day.'',
      metadata =
        [(''source'', MYaml (YStr ''guide'')), (''source_file'', MStr ''guide.pdf''),
         (''page'', MInt 22), (''document_type'', MStr ''core_guideline''),
         (''topics'', MYaml (YSeq [YStr ''general''])),
         (''life_stages'', MTags {''adults''}),
         (''contains_tables'', MBool False),
         (''safety_level'', MStr ''general'')]\<rparr>"

definition scenario_a_chunk :: document where
  "scenario_a_chunk =
     \<lparr>page_content = ''[NUTRIENT_TABLE_START]'' @ [CHR 0x0A]
                       @ ''Sodium daily value 2300 mg adults limit'' @ [CHR 0x0A]
                       @ ''[NUTRIENT_TABLE_END]'',
      metadata =
        [(''source'', MYaml (YStr ''dga_2020'')), (''source_file'', MStr ''x.pdf''),
         (''page'', MInt 2), (''document_type'', MStr ''core_guideline''),
         (''topics'', MYaml (YSeq [YStr ''sodium''])),
         (''life_stages'', MTags {''adults''}),
         (''contains_tables'', MBool True),
         (''safety_level'', MStr ''general'')]\<rparr>"

text \<open>A document that did not come from the pipeline: flagged text, no metadata.\<close>

definition bare_chunk :: document where
  "bare_chunk = \<lparr>page_content = ''Suggested citation: USDA (2020).'', metadata = []\<rparr>"

section \<open>Facts about the string primitives\<close>

lemma starts_with_iff: "starts_with pat s \<longleftrightarrow> (\<exists>ss. s = pat @ ss)"
  by (induction pat s rule: starts_with.induct) auto

lemma str_in_iff: "str_in pat s \<longleftrightarrow> (\<exists>ps ss. s = ps @ pat @ ss)"
proof (induction s)
  case Nil
  show ?case by auto
next
  case (Cons c cs)
  show ?case
  proof
    assume "str_in pat (c # cs)"
    then consider "starts_with pat (c # cs)" | "str_in pat cs" by auto
    then show "\<exists>ps ss. c # cs = ps @ pat @ ss"
    proof cases
      case 1
      then obtain ss where "c # cs = pat @ ss" by (auto simp: starts_with_iff)
      then have "c # cs = [] @ pat @ ss" by simp
      then show ?thesis by blast
    next
      case 2
      then obtain ps ss where "cs = ps @ pat @ ss" using Cons.IH by auto
      then have "c # cs = (c # ps) @ pat @ ss" by simp
      then show ?thesis by blast
    qed
  next
    assume "\<exists>ps ss. c # cs = ps @ pat @ ss"
    then obtain ps ss where eq: "c # cs = ps @ pat @ ss" by blast
    show "str_in pat (c # cs)"
    proof (cases ps)
      case Nil
      with eq have "starts_with pat (c # cs)" by (auto simp: starts_with_iff)
      then show ?thesis by simp
    next
      case (Cons p ps')
      with eq have "cs = ps' @ pat @ ss" by simp
      then have "str_in pat cs" using Cons.IH by blast
      then show ?thesis by simp
    qed
  qed
qed

lemma str_in_set: "str_in pat s \<Longrightarrow> set pat \<subseteq> set s"
  by (auto simp: str_in_iff)

lemma lower_char_space: "is_space c \<Longrightarrow> lower_char c = c"
  by (auto simp: is_space_def lower_char_def Let_def)

lemma mem_dropWhile: "x \<in> set xs \<Longrightarrow> \<not> P x \<Longrightarrow> x \<in> set (dropWhile P xs)"
  by (induction xs) auto

lemma strip_not_Nil: "c \<in> set s \<Longrightarrow> \<not> is_space c \<Longrightarrow> strip s \<noteq> []"
proof -
  assume c: "c \<in> set s" "\<not> is_space c"
  then have "c \<in> set (rev (dropWhile is_space s))" by (simp add: mem_dropWhile)
  then have "c \<in> set (dropWhile is_space (rev (dropWhile is_space s)))"
    using c(2) by (rule mem_dropWhile)
  then have "dropWhile is_space (rev (dropWhile is_space s)) \<noteq> []" by force
  then show ?thesis by (simp only: strip_def rev_is_Nil_conv not_False_eq_True)
qed

lemma nutrition_keyword_has_letter:
  "kw \<in> set NUTRITION_KEYWORDS \<Longrightarrow> \<exists>c \<in> set kw. \<not> is_space c"
  by (auto simp: NUTRITION_KEYWORDS_def is_space_def)

lemma keyword_page_not_blank:
  assumes "1 \<le> count_matches NUTRITION_KEYWORDS (lower text)"
  shows "strip text \<noteq> []"
proof -
  from assms have "filter (\<lambda>kw. str_in kw (lower text)) NUTRITION_KEYWORDS \<noteq> []"
    by (auto simp: count_matches_def)
  then obtain kw where kw: "kw \<in> set NUTRITION_KEYWORDS" "str_in kw (lower text)"
    by (auto simp: filter_empty_conv)
  then obtain c where c: "c \<in> set kw" "\<not> is_space c"
    using nutrition_keyword_has_letter by blast
  with kw(2) have "c \<in> set (lower text)" using str_in_set by blast
  then obtain c0 where c0: "c0 \<in> set text" "c = lower_char c0"
    by (auto simp: lower_def)
  with c(2) have "\<not> is_space c0" using lower_char_space [of c0] by auto
  with c0(1) show ?thesis by (rule strip_not_Nil)
qed

section \<open>The page filter\<close>

text \<open>
  Claim C5. A page after page 20 with at least three nutrition keywords is admitted
  unless it matches the table-of-contents pattern or the copyright pattern: the
  administrative phrases are looked for on the first 15 pages only, so they play no part
  here. The text must not be blank (line 78 treats white space only as empty); for a
  page whose keyword count is the count of its own text, as
  \<^verbatim>\<open>process_single_document\<close> computes it, that already follows from the count.
\<close>

theorem admitted_after_front_matter:
  assumes "20 < page_num" and "3 \<le> nutrition_matches"
    and "strip text \<noteq> [] \<or> nutrition_matches = count_matches NUTRITION_KEYWORDS (lower text)"
    and "\<not> (str_in ''table of contents'' (strip (lower text))
             \<and> str_in ''page'' (strip (lower text))
             \<and> length (split_ws (strip (lower text))) < 500)"
    and "\<not> ((str_in ''copyright'' (strip (lower text))
              \<or> str_in copyright_sign (strip (lower text)))
             \<and> str_in ''reserved'' (strip (lower text))
             \<and> length (split_ws (strip (lower text))) < 300)"
  shows "\<not> is_low_value_page text page_num total_pages nutrition_matches"
proof -
  have nb: "strip text \<noteq> []"
    using assms(2,3) keyword_page_not_blank [of "text"] by auto
  then have "text \<noteq> []" by (auto simp: strip_def)
  with nb assms(1,2,4,5) show ?thesis
    by (simp add: is_low_value_page_def Let_def)
qed

theorem admitted_after_front_matter_witness:
  "(20::nat) < 21
   \<and> 3 \<le> count_matches NUTRITION_KEYWORDS (lower ''Adults should limit sodium to 2300 mg per day.'')
   \<and> \<not> is_low_value_page ''Adults should limit sodium to 2300 mg per day.'' 21 30
         (count_matches NUTRITION_KEYWORDS (lower ''Adults should limit sodium to 2300 mg per day.''))"
proof -
  let ?t = "''Adults should limit sodium to 2300 mg per day.''"
  let ?n = "count_matches NUTRITION_KEYWORDS (lower ?t)"
  have h1: "(20::nat) < 21" by simp
  have h2: "3 \<le> ?n" by code_simp
  have h3: "strip ?t \<noteq> [] \<or> ?n = count_matches NUTRITION_KEYWORDS (lower ?t)" by simp
  have h4: "\<not> (str_in ''table of contents'' (strip (lower ?t))
             \<and> str_in ''page'' (strip (lower ?t))
             \<and> length (split_ws (strip (lower ?t))) < 500)" by code_simp
  have h5: "\<not> ((str_in ''copyright'' (strip (lower ?t))
              \<or> str_in copyright_sign (strip (lower ?t)))
             \<and> str_in ''reserved'' (strip (lower ?t))
             \<and> length (split_ws (strip (lower ?t))) < 300)" by code_simp
  from admitted_after_front_matter [OF h1 h2 h3 h4 h5, of 30] h1 h2
  show ?thesis by blast
qed

section \<open>Nutrient tables\<close>

text \<open>
  Claim C6. \<^verbatim>\<open>detect_nutrient_tables\<close> is true exactly when at least two of the
  nutrient indicators occur in the lowered text and no disqualifier does; a
  disqualifier alone makes it false, however many indicators there are. Occurrence is
  stated as being a contiguous part of the text, the count as the number of indicator
  terms that occur.
\<close>

theorem detect_nutrient_tables_iff:
  "(detect_nutrient_tables text \<longleftrightarrow>
      2 \<le> card {t \<in> set nutrient_indicators. \<exists>ps ss. lower text = ps @ t @ ss}
      \<and> \<not> (\<exists>t \<in> set non_nutrient_indicators. \<exists>ps ss. lower text = ps @ t @ ss))
   \<and> ((\<exists>t \<in> set non_nutrient_indicators. \<exists>ps ss. lower text = ps @ t @ ss)
        \<longrightarrow> \<not> detect_nutrient_tables text)"
proof -
  have d: "distinct nutrient_indicators"
    by (simp add: nutrient_indicators_def)
  have "count_matches nutrient_indicators (lower text)
        = card {t \<in> set nutrient_indicators. str_in t (lower text)}"
    unfolding count_matches_def using d
    by (simp add: distinct_length_filter Int_def conj_commute)
  then have "detect_nutrient_tables text \<longleftrightarrow>
      2 \<le> card {t \<in> set nutrient_indicators. \<exists>ps ss. lower text = ps @ t @ ss}
      \<and> \<not> (\<exists>t \<in> set non_nutrient_indicators. \<exists>ps ss. lower text = ps @ t @ ss)"
    by (simp add: detect_nutrient_tables_def any_match_def list_ex_iff str_in_iff Let_def)
  then show ?thesis by blast
qed

theorem detect_nutrient_tables_iff_witness:
  "str_in ''appendix'' (lower ''Calcium and potassium: see Appendix 2'')
   \<and> 2 \<le> count_matches nutrient_indicators (lower ''Calcium and potassium: see Appendix 2'')
   \<and> \<not> detect_nutrient_tables ''Calcium and potassium: see Appendix 2''"
proof -
  let ?t = "''Calcium and potassium: see Appendix 2''"
  have a: "str_in ''appendix'' (lower ?t)" by code_simp
  have b: "2 \<le> count_matches nutrient_indicators (lower ?t)" by code_simp
  have m: "''appendix'' \<in> set non_nutrient_indicators"
    by (simp add: non_nutrient_indicators_def)
  from a obtain ps ss where "lower ?t = ps @ ''appendix'' @ ss"
    unfolding str_in_iff by blast
  with m have "\<exists>t \<in> set non_nutrient_indicators. \<exists>ps ss. lower ?t = ps @ t @ ss"
    by blast
  with detect_nutrient_tables_iff [of ?t] have "\<not> detect_nutrient_tables ?t" by blast
  with a b show ?thesis by blast
qed

section \<open>Safety level and life stages of an admitted page\<close>

lemma process_page_SomeD:
  assumes "process_page entry file_path doc_type total_pages page_num page = Some chunk"
  obtains text' source_id topics where
    "extract_text page = Some text'"
    "\<not> is_low_value_page text' page_num total_pages (count_matches NUTRITION_KEYWORDS (lower text'))"
    "getitem entry ''id'' = Inr source_id"
    "dict_get entry ''topics'' (YSeq [YStr ''general'']) = Inr topics"
    "page_content chunk = (if detect_nutrient_tables text' then extract_table_content text' else text')"
    "metadata chunk =
       [(''source'', MYaml source_id),
        (''source_file'', MStr (basename file_path)),
        (''page'', MInt (int page_num)),
        (''document_type'', MStr doc_type),
        (''topics'', MYaml topics),
        (''life_stages'', MTags (if 3 \<le> count_matches NUTRITION_KEYWORDS (lower text')
                                 then detect_life_stages text' else {''general''})),
        (''contains_tables'', MBool (detect_nutrient_tables text')),
        (''safety_level'', MStr (determine_safety_level
            (count_matches NUTRITION_KEYWORDS (lower text')) (lower text')))]"
  using assms unfolding process_page_def Let_def
  by (auto split: option.splits sum.splits if_splits)

text \<open>
  Claim C1. For an admitted page with at least three nutrition keywords whose lowered
  text holds a medical trigger and a professional-use trigger, the chunk's safety level
  is \<^verbatim>\<open>professional_use_only\<close>, never \<^verbatim>\<open>medical_caution\<close>; in general the level of
  such a page is the first that applies of professional use, medical caution, general.
\<close>

theorem safety_level_precedence:
  assumes "process_page entry file_path doc_type total_pages page_num page = Some chunk"
    and "extract_text page = Some text'"
    and "3 \<le> count_matches NUTRITION_KEYWORDS (lower text')"
  shows "(any_match medical_triggers (lower text') \<and> any_match professional_triggers (lower text')
          \<longrightarrow> map_of (metadata chunk) ''safety_level'' = Some (MStr ''professional_use_only'')
              \<and> map_of (metadata chunk) ''safety_level'' \<noteq> Some (MStr ''medical_caution''))
       \<and> map_of (metadata chunk) ''safety_level'' =
           Some (MStr (if any_match professional_triggers (lower text') then ''professional_use_only''
                       else if any_match medical_triggers (lower text') then ''medical_caution''
                       else ''general''))"
proof -
  from assms(1) obtain t where t: "extract_text page = Some t"
    and m: "map_of (metadata chunk) ''safety_level'' =
        Some (MStr (determine_safety_level (count_matches NUTRITION_KEYWORDS (lower t)) (lower t)))"
    by (rule process_page_SomeD) simp
  from t assms(2) have "t = text'" by simp
  with m assms(3) show ?thesis
    by (simp add: determine_safety_level_def Let_def)
qed

theorem safety_level_precedence_witness:
  "process_page sample_entry ''x.pdf'' ''core_guideline'' 30 25
     (Text ''Pregnant adults: sodium limit 2300 mg; ask a healthcare provider.'')
   = Some \<lparr>page_content = ''Pregnant adults: sodium limit 2300 mg; ask a healthcare provider.'',
           metadata =
             [(''source'', MYaml (YStr ''dga_2020'')), (''source_file'', MStr ''x.pdf''),
              (''page'', MInt 25), (''document_type'', MStr ''core_guideline''),
              (''topics'', MYaml (YSeq [YStr ''sodium''])),
              (''life_stages'', MTags {''adults'', ''pregnant''}),
              (''contains_tables'', MBool False),
              (''safety_level'', MStr ''professional_use_only'')]\<rparr>
   \<and> any_match medical_triggers
         (lower ''Pregnant adults: sodium limit 2300 mg; ask a healthcare provider.'')
   \<and> any_match professional_triggers
         (lower ''Pregnant adults: sodium limit 2300 mg; ask a healthcare provider.'')
   \<and> map_of [(''source'', MYaml (YStr ''dga_2020'')), (''source_file'', MStr ''x.pdf''),
              (''page'', MInt 25), (''document_type'', MStr ''core_guideline''),
              (''topics'', MYaml (YSeq [YStr ''sodium''])),
              (''life_stages'', MTags {''adults'', ''pregnant''}),
              (''contains_tables'', MBool False),
              (''safety_level'', MStr ''professional_use_only'')] ''safety_level''
       = Some (MStr ''professional_use_only'')"
proof -
  let ?t = "''Pregnant adults: sodium limit 2300 mg; ask a healthcare provider.''"
  let ?chunk = "\<lparr>page_content = ?t,
           metadata =
             [(''source'', MYaml (YStr ''dga_2020'')), (''source_file'', MStr ''x.pdf''),
              (''page'', MInt 25), (''document_type'', MStr ''core_guideline''),
              (''topics'', MYaml (YSeq [YStr ''sodium''])),
              (''life_stages'', MTags {''adults'', ''pregnant''}),
              (''contains_tables'', MBool False),
              (''safety_level'', MStr ''professional_use_only'')]\<rparr>"
  have h1: "process_page sample_entry ''x.pdf'' ''core_guideline'' 30 25 (Text ?t) = Some ?chunk"
    by code_simp
  have h2: "extract_text (Text ?t) = Some ?t" by simp
  have h3: "3 \<le> count_matches NUTRITION_KEYWORDS (lower ?t)" by code_simp
  have m: "any_match medical_triggers (lower ?t)" by code_simp
  have p: "any_match professional_triggers (lower ?t)" by code_simp
  from safety_level_precedence [OF h1 h2 h3] m p
  have "map_of (metadata ?chunk) ''safety_level'' = Some (MStr ''professional_use_only'')"
    by blast
  then have "map_of [(''source'', MYaml (YStr ''dga_2020'')), (''source_file'', MStr ''x.pdf''),
              (''page'', MInt 25), (''document_type'', MStr ''core_guideline''),
              (''topics'', MYaml (YSeq [YStr ''sodium''])),
              (''life_stages'', MTags {''adults'', ''pregnant''}),
              (''contains_tables'', MBool False),
              (''safety_level'', MStr ''professional_use_only'')] ''safety_level''
       = Some (MStr ''professional_use_only'')"
    by (simp only: document.simps)
  with h1 m p show ?thesis by blast
qed

lemma detect_life_stages_not_empty: "detect_life_stages text \<noteq> {}"
  by (simp add: detect_life_stages_def Let_def)

lemma detect_life_stages_general:
  assumes "\<not> any_match pregnancy_terms (lower text)"
    "\<not> any_match breastfeeding_terms (lower text)"
    "\<not> any_match infant_terms (lower text)"
    "\<not> any_match child_terms (lower text)"
    "\<not> any_match adult_terms (lower text)"
    "\<not> str_in ''athlete'' (lower text)" "\<not> str_in ''sports'' (lower text)"
  shows "detect_life_stages text = {''general''}"
  using assms by (simp add: detect_life_stages_def Let_def)

text \<open>
  Claim C7. The life stages of a chunk are never empty: \<^verbatim>\<open>detect_life_stages\<close>
  never returns the empty set and returns \<open>{general}\<close> when no life-stage term occurs,
  and the chunk of an admitted page has a non-empty set of life stages, which is
  \<open>{general}\<close> when the page has fewer than three nutrition keywords, whatever its
  text says.
\<close>

theorem life_stages_never_empty:
  "detect_life_stages text \<noteq> {}
   \<and> (\<not> any_match pregnancy_terms (lower text)
      \<and> \<not> any_match breastfeeding_terms (lower text)
      \<and> \<not> any_match infant_terms (lower text)
      \<and> \<not> any_match child_terms (lower text)
      \<and> \<not> any_match adult_terms (lower text)
      \<and> \<not> str_in ''athlete'' (lower text) \<and> \<not> str_in ''sports'' (lower text)
      \<longrightarrow> detect_life_stages text = {''general''})
   \<and> (process_page entry file_path doc_type total_pages page_num page = Some chunk
      \<longrightarrow> (\<exists>life_stages. map_of (metadata chunk) ''life_stages'' = Some (MTags life_stages)
             \<and> life_stages \<noteq> {}
             \<and> (extract_text page = Some t
                   \<and> count_matches NUTRITION_KEYWORDS (lower t) < 3
                 \<longrightarrow> life_stages = {''general''})))"
proof (intro conjI impI)
  show "detect_life_stages text \<noteq> {}" by (rule detect_life_stages_not_empty)
next
  assume "\<not> any_match pregnancy_terms (lower text)
      \<and> \<not> any_match breastfeeding_terms (lower text)
      \<and> \<not> any_match infant_terms (lower text)
      \<and> \<not> any_match child_terms (lower text)
      \<and> \<not> any_match adult_terms (lower text)
      \<and> \<not> str_in ''athlete'' (lower text) \<and> \<not> str_in ''sports'' (lower text)"
  then show "detect_life_stages text = {''general''}"
    by (simp add: detect_life_stages_general)
next
  assume "process_page entry file_path doc_type total_pages page_num page = Some chunk"
  then obtain t' where t': "extract_text page = Some t'"
    and m: "map_of (metadata chunk) ''life_stages'' =
        Some (MTags (if 3 \<le> count_matches NUTRITION_KEYWORDS (lower t')
                     then detect_life_stages t' else {''general''}))"
    by (rule process_page_SomeD) simp
  show "\<exists>life_stages. map_of (metadata chunk) ''life_stages'' = Some (MTags life_stages)
             \<and> life_stages \<noteq> {}
             \<and> (extract_text page = Some t
                   \<and> count_matches NUTRITION_KEYWORDS (lower t) < 3
                 \<longrightarrow> life_stages = {''general''})"
    using t' m detect_life_stages_not_empty by auto
qed

theorem life_stages_never_empty_witness:
  "detect_life_stages ''Whole grains and fruit'' = {''general''}
   \<and> process_page sample_entry ''x.pdf'' ''core_guideline'' 30 25
        (Text ''Senior athletes and sports teams'')
      = Some \<lparr>page_content = ''Senior athletes and sports teams'',
           metadata =
             [(''source'', MYaml (YStr ''dga_2020'')), (''source_file'', MStr ''x.pdf''),
              (''page'', MInt 25), (''document_type'', MStr ''core_guideline''),
              (''topics'', MYaml (YSeq [YStr ''sodium''])),
              (''life_stages'', MTags {''general''}),
              (''contains_tables'', MBool False),
              (''safety_level'', MStr ''administrative'')]\<rparr>
   \<and> str_in ''athlete'' (lower ''Senior athletes and sports teams'')
   \<and> count_matches NUTRITION_KEYWORDS (lower ''Senior athletes and sports teams'') < 3"
proof -
  let ?g = "''Whole grains and fruit''"
  let ?t = "''Senior athletes and sports teams''"
  let ?md = "[(''source'', MYaml (YStr ''dga_2020'')), (''source_file'', MStr ''x.pdf''),
              (''page'', MInt 25), (''document_type'', MStr ''core_guideline''),
              (''topics'', MYaml (YSeq [YStr ''sodium''])),
              (''life_stages'', MTags {''general''}),
              (''contains_tables'', MBool False),
              (''safety_level'', MStr ''administrative'')]"
  have g: "\<not> any_match pregnancy_terms (lower ?g)
      \<and> \<not> any_match breastfeeding_terms (lower ?g)
      \<and> \<not> any_match infant_terms (lower ?g)
      \<and> \<not> any_match child_terms (lower ?g)
      \<and> \<not> any_match adult_terms (lower ?g)
      \<and> \<not> str_in ''athlete'' (lower ?g) \<and> \<not> str_in ''sports'' (lower ?g)"
    by code_simp
  have h1: "process_page sample_entry ''x.pdf'' ''core_guideline'' 30 25 (Text ?t)
            = Some \<lparr>page_content = ?t, metadata = ?md\<rparr>"
    by code_simp
  have h2: "extract_text (Text ?t) = Some ?t" by simp
  have h3: "count_matches NUTRITION_KEYWORDS (lower ?t) < 3" by code_simp
  have a: "str_in ''athlete'' (lower ?t)" by code_simp
  note inst = life_stages_never_empty [of ?g sample_entry "''x.pdf''" "''core_guideline''" 30 25
      "Text ?t" "\<lparr>page_content = ?t, metadata = ?md\<rparr>" ?t]
  from inst g have d: "detect_life_stages ?g = {''general''}" by blast
  from inst h1 h2 h3 obtain life_stages where
    "map_of (metadata \<lparr>page_content = ?t, metadata = ?md\<rparr>) ''life_stages''
       = Some (MTags life_stages)"
    and "life_stages = {''general''}"
    by blast
  with d h1 a h3 show ?thesis by blast
qed

section \<open>The validation of the aggregated chunks\<close>

lemma problem_row_fst: "problem_row i doc = Inr row \<Longrightarrow> fst row = i"
  by (auto simp: problem_row_def Let_def split: option.splits)

lemma problem_row_error: "problem_row i doc = Inl e \<Longrightarrow> e = KeyError"
  by (auto simp: problem_row_def Let_def split: option.splits)

lemma problem_row_ok:
  "map_of (metadata doc) ''source'' \<noteq> None \<Longrightarrow> map_of (metadata doc) ''page'' \<noteq> None
   \<Longrightarrow> \<exists>row. problem_row i doc = Inr row"
  by (auto simp: problem_row_def Let_def split: option.splits)

lemma validate_loop_indices:
  "validate_loop xs acc = Inr rows \<Longrightarrow>
   map fst rows = map fst acc @ map fst (filter (\<lambda>p. is_problematic (snd p)) xs)"
proof (induction xs acc rule: validate_loop.induct)
  case (1 acc)
  then show ?case by simp
next
  case (2 i doc rest acc)
  show ?case
  proof (cases "is_problematic doc")
    case False
    with 2 show ?thesis by simp
  next
    case True
    with "2.prems" obtain row where row: "problem_row i doc = Inr row"
      and rest: "validate_loop rest (acc @ [row]) = Inr rows"
      by (auto split: sum.splits)
    from "2.IH"(1) [OF True row rest] problem_row_fst [OF row] True
    show ?thesis by simp
  qed
qed

lemma validate_loop_error:
  "validate_loop xs acc = Inl e \<Longrightarrow>
   e = KeyError \<and> (\<exists>p \<in> set xs. is_problematic (snd p) \<and> problem_row (fst p) (snd p) = Inl KeyError)"
proof (induction xs acc rule: validate_loop.induct)
  case (1 acc)
  then show ?case by simp
next
  case (2 i doc rest acc)
  show ?case
  proof (cases "is_problematic doc")
    case False
    with 2 show ?thesis by auto
  next
    case True
    show ?thesis
    proof (cases "problem_row i doc")
      case (Inl e')
      with True "2.prems" problem_row_error [OF Inl] show ?thesis by auto
    next
      case (Inr row)
      with True "2.prems" have "validate_loop rest (acc @ [row]) = Inl e" by simp
      from "2.IH"(1) [OF True Inr this] show ?thesis by auto
    qed
  qed
qed

lemma validate_loop_total:
  assumes "\<forall>p \<in> set xs. is_problematic (snd p) \<longrightarrow> problem_row (fst p) (snd p) \<noteq> Inl KeyError"
  shows "\<exists>rows. validate_loop xs acc = Inr rows"
proof (cases "validate_loop xs acc")
  case (Inl e)
  then obtain p where "p \<in> set xs" "is_problematic (snd p)"
      "problem_row (fst p) (snd p) = Inl KeyError"
    using validate_loop_error by blast
  with assms show ?thesis by blast
next
  case (Inr rows)
  then show ?thesis by blast
qed

lemma flagged_indices:
  assumes "validate_processed_chunks docs = Inr rows"
  shows "map fst rows = map fst (filter (\<lambda>p. is_problematic (snd p)) (enumerate 0 docs))"
  using assms validate_loop_indices [of "enumerate 0 docs" "[]" rows]
  by (simp add: validate_processed_chunks_def)

lemma enumerate_fst_inj:
  assumes "(i, d) \<in> set (enumerate n xs)" and "(i, d') \<in> set (enumerate n xs)"
  shows "d = d'"
proof -
  from assms(1) have "xs ! (i - n) = d" by (simp add: in_set_enumerate_eq)
  moreover from assms(2) have "xs ! (i - n) = d'" by (simp add: in_set_enumerate_eq)
  ultimately show ?thesis by simp
qed

lemma snd_filter_enumerate:
  "map snd (filter (\<lambda>p. P (snd p)) (enumerate n xs)) = filter P xs"
proof -
  have "filter P (map snd (enumerate n xs)) = map snd (filter (P \<circ> snd) (enumerate n xs))"
    by (rule filter_map)
  then show ?thesis by (simp add: comp_def)
qed

lemma remove_flagged:
  "map snd (filter (\<lambda>(i, doc). i \<notin> fst ` {p \<in> set (enumerate 0 docs). is_problematic (snd p)})
                   (enumerate 0 docs))
   = filter (\<lambda>d. \<not> is_problematic d) docs"
proof -
  define F where "F = {p \<in> set (enumerate 0 docs). is_problematic (snd p)}"
  have iff: "i \<in> fst ` F \<longleftrightarrow> is_problematic d"
    if p: "(i, d) \<in> set (enumerate 0 docs)" for i d
  proof
    assume "i \<in> fst ` F"
    then obtain q where q: "q \<in> F" "i = fst q" by (rule imageE)
    obtain j e where je: "q = (j, e)" by (cases q)
    from q(1) je have q1: "(j, e) \<in> set (enumerate 0 docs)" and q2: "is_problematic e"
      by (simp_all add: F_def)
    from q(2) je have "i = j" by simp
    with q1 have "(i, e) \<in> set (enumerate 0 docs)" by simp
    with p have "d = e" by (rule enumerate_fst_inj)
    with q2 show "is_problematic d" by simp
  next
    assume "is_problematic d"
    with p have "(i, d) \<in> F" by (simp add: F_def)
    then have "fst (i, d) \<in> fst ` F" by (rule imageI)
    then show "i \<in> fst ` F" by simp
  qed
  have "filter (\<lambda>(i, doc). i \<notin> fst ` F) (enumerate 0 docs)
        = filter (\<lambda>p. \<not> is_problematic (snd p)) (enumerate 0 docs)"
  proof (rule filter_cong [OF refl])
    fix p assume p: "p \<in> set (enumerate 0 docs)"
    obtain i d where id: "p = (i, d)" by (cases p)
    with p have "i \<in> fst ` F \<longleftrightarrow> is_problematic d" by (simp add: iff)
    with id show "(case p of (i, doc) \<Rightarrow> i \<notin> fst ` F) = (\<not> is_problematic (snd p))"
      by simp
  qed
  then have "map snd (filter (\<lambda>(i, doc). i \<notin> fst ` F) (enumerate 0 docs))
             = filter (\<lambda>d. \<not> is_problematic d) docs"
    using snd_filter_enumerate [of "\<lambda>d. \<not> is_problematic d" 0 docs] by simp
  then show ?thesis by (simp only: F_def)
qed

lemma flagged_empty:
  "filter (\<lambda>p. P (snd p)) (enumerate n xs) = [] \<longleftrightarrow> \<not> (\<exists>d \<in> set xs. P d)"
proof -
  have "filter (\<lambda>p. P (snd p)) (enumerate n xs) = []
        \<longleftrightarrow> map snd (filter (\<lambda>p. P (snd p)) (enumerate n xs)) = []"
    by (simp only: map_is_Nil_conv)
  also have "\<dots> \<longleftrightarrow> filter P xs = []"
    by (simp only: snd_filter_enumerate)
  also have "\<dots> \<longleftrightarrow> \<not> (\<exists>d \<in> set xs. P d)"
    by (simp add: filter_empty_conv)
  finally show ?thesis .
qed

lemma validate_and_clean_Inr:
  assumes "validate_processed_chunks docs = Inr rows"
  shows "validate_and_clean docs =
     (if \<exists>d \<in> set docs. is_problematic d then
        (if filter (\<lambda>d. \<not> is_problematic d) docs = [] then Inl ValueError
         else Inr (filter (\<lambda>d. \<not> is_problematic d) docs))
      else Inr docs)"
proof -
  let ?flagged = "filter (\<lambda>p. is_problematic (snd p)) (enumerate 0 docs)"
  have idx: "map fst rows = map fst ?flagged"
    using assms by (rule flagged_indices)
  have "set (map fst rows) = set (map fst ?flagged)"
    by (simp only: idx)
  then have s: "set (map fst rows) = fst ` {p \<in> set (enumerate 0 docs). is_problematic (snd p)}"
    by simp
  have "length rows = length ?flagged"
    using idx by (rule map_eq_imp_length_eq)
  then have r: "rows = [] \<longleftrightarrow> ?flagged = []"
    by (simp only: length_0_conv [symmetric])
  have f: "?flagged = [] \<longleftrightarrow> \<not> (\<exists>d \<in> set docs. is_problematic d)"
    by (rule flagged_empty)
  from r f have e: "rows \<noteq> [] \<longleftrightarrow> (\<exists>d \<in> set docs. is_problematic d)" by simp
  have c: "map snd (filter (\<lambda>(i, doc). i \<notin> set (map fst rows)) (enumerate 0 docs))
           = filter (\<lambda>d. \<not> is_problematic d) docs"
    by (simp only: s remove_flagged)
  show ?thesis
  proof (cases "rows = []")
    case True
    with e have "\<not> (\<exists>d \<in> set docs. is_problematic d)" by simp
    with True assms show ?thesis by (simp add: validate_and_clean_def)
  next
    case False
    with e have ex: "\<exists>d \<in> set docs. is_problematic d" by simp
    let ?cleaned = "map snd (filter (\<lambda>(i, doc). i \<notin> set (map fst rows)) (enumerate 0 docs))"
    have "validate_and_clean docs = (if ?cleaned = [] then Inl ValueError else Inr ?cleaned)"
      unfolding validate_and_clean_def Let_def using False assms
      by (simp only: sum.case if_True not_False_eq_True)
    then show ?thesis
      using ex by (simp only: c if_True)
  qed
qed

lemma validate_and_clean_fallback:
  "validate_processed_chunks docs = Inl e \<Longrightarrow> validate_and_clean docs = Inr docs"
  by (simp add: validate_and_clean_def)

section \<open>What the pipeline builds\<close>

lemma process_page_keys:
  assumes "process_page entry file_path doc_type total_pages page_num page = Some chunk"
  shows "map_of (metadata chunk) ''source'' \<noteq> None \<and> map_of (metadata chunk) ''page'' \<noteq> None"
  using assms by (rule process_page_SomeD) simp

lemma set_map_filter_iff:
  "y \<in> set (List.map_filter g xs) \<longleftrightarrow> (\<exists>x \<in> set xs. g x = Some y)"
  by (induction xs) (auto split: option.splits)

lemma process_pages_chunk:
  assumes "d \<in> set (process_pages entry file_path doc_type pages)"
  shows "\<exists>page_num page. process_page entry file_path doc_type (length pages) page_num page = Some d"
  using assms unfolding process_pages_def set_map_filter_iff by auto

lemma process_single_document_InrD:
  assumes "process_single_document env entry = Inr docs"
  obtains file_path id_value id_lower pages where
    "getitem entry ''path'' = Inr (YStr file_path)"
    "path_exists env file_path"
    "PdfReader env file_path = Some pages"
    "getitem entry ''id'' = Inr id_value"
    "lower_method id_value = Inr id_lower"
    "docs = process_pages entry file_path (determine_document_type id_lower) pages"
proof -
  from assms obtain pv where pv: "getitem entry ''path'' = Inr pv"
    by (auto simp: process_single_document_def split: sum.splits)
  with assms obtain file_path where fp: "Path pv = Inr file_path"
    by (auto simp: process_single_document_def split: sum.splits)
  then have pv': "pv = YStr file_path" by (cases pv) auto
  from assms pv fp have ex: "path_exists env file_path"
    by (auto simp: process_single_document_def split: sum.splits if_splits)
  with assms pv fp obtain pages where pg: "PdfReader env file_path = Some pages"
    by (auto simp: process_single_document_def split: sum.splits option.splits)
  with assms pv fp ex obtain id_value where iv: "getitem entry ''id'' = Inr id_value"
    by (auto simp: process_single_document_def split: sum.splits)
  with assms pv fp ex pg obtain id_lower where il: "lower_method id_value = Inr id_lower"
    by (auto simp: process_single_document_def split: sum.splits)
  with assms pv fp ex pg iv
  have "docs = process_pages entry file_path (determine_document_type id_lower) pages"
    by (simp add: process_single_document_def)
  with pv pv' ex pg iv il that show ?thesis by blast
qed

lemma entry_body_InrD:
  "entry_body env entry = Inr docs \<Longrightarrow> process_single_document env entry = Inr docs"
  by (auto simp: entry_body_def split: sum.splits if_splits)

lemma entry_chunks_keys:
  assumes "entry_body env entry = Inr docs" and "d \<in> set docs"
  shows "map_of (metadata d) ''source'' \<noteq> None \<and> map_of (metadata d) ''page'' \<noteq> None"
proof -
  from assms(1) have "process_single_document env entry = Inr docs" by (rule entry_body_InrD)
  then obtain file_path doc_type pages where "docs = process_pages entry file_path doc_type pages"
    by (rule process_single_document_InrD)
  with assms(2) obtain page_num page where
    "process_page entry file_path doc_type (length pages) page_num page = Some d"
    using process_pages_chunk by blast
  then show ?thesis by (rule process_page_keys)
qed

lemma manifest_loop_keys:
  assumes "manifest_loop env entries (all_documents, s, f) = Inr (docs, s', f')"
    and "\<forall>d \<in> set all_documents.
           map_of (metadata d) ''source'' \<noteq> None \<and> map_of (metadata d) ''page'' \<noteq> None"
  shows "\<forall>d \<in> set docs.
           map_of (metadata d) ''source'' \<noteq> None \<and> map_of (metadata d) ''page'' \<noteq> None"
  using assms
proof (induction entries arbitrary: all_documents s f)
  case Nil
  then show ?case by simp
next
  case (Cons entry rest)
  show ?case
  proof (cases "entry_body env entry")
    case (Inr new)
    with Cons.prems(1)
    have step: "manifest_loop env rest (all_documents @ new, s + 1, f) = Inr (docs, s', f')"
      by simp
    have "\<forall>d \<in> set (all_documents @ new).
           map_of (metadata d) ''source'' \<noteq> None \<and> map_of (metadata d) ''page'' \<noteq> None"
      using Cons.prems(2) entry_chunks_keys [OF Inr] by auto
    with step show ?thesis by (rule Cons.IH)
  next
    case (Inl e)
    with Cons.prems(1)
    have step: "manifest_loop env rest (all_documents, s, f + 1) = Inr (docs, s', f')"
      by (auto split: sum.splits)
    from step Cons.prems(2) show ?thesis by (rule Cons.IH)
  qed
qed

lemma loader_chunks_validate:
  assumes "manifest_loop env entries ([], 0, 0) = Inr (docs, s, f)"
  shows "\<exists>rows. validate_processed_chunks docs = Inr rows"
proof -
  have keys: "\<forall>d \<in> set docs.
           map_of (metadata d) ''source'' \<noteq> None \<and> map_of (metadata d) ''page'' \<noteq> None"
    using assms by (rule manifest_loop_keys) simp
  have "\<forall>p \<in> set (enumerate 0 docs).
          is_problematic (snd p) \<longrightarrow> problem_row (fst p) (snd p) \<noteq> Inl KeyError"
  proof (intro ballI impI)
    fix p assume "p \<in> set (enumerate 0 docs)"
    then have "snd p \<in> set docs"
      by (metis in_set_zipE enumerate_eq_zip prod.collapse)
    with keys have "map_of (metadata (snd p)) ''source'' \<noteq> None"
      "map_of (metadata (snd p)) ''page'' \<noteq> None" by simp_all
    then obtain row where "problem_row (fst p) (snd p) = Inr row"
      using problem_row_ok by blast
    then show "problem_row (fst p) (snd p) \<noteq> Inl KeyError" by simp
  qed
  then show ?thesis
    unfolding validate_processed_chunks_def by (rule validate_loop_total)
qed

section \<open>The loader's validation\<close>

lemma load_unfold:
  assumes "path_exists env manifest_path" and "safe_load env manifest_path = Some corpus"
    and "manifest_entries corpus = Inr entries"
    and "manifest_loop env entries ([], 0, 0) = Inr (docs, s, f)"
  shows "load_and_preprocess_documents env manifest_path = validate_and_clean docs"
  using assms by (simp add: load_and_preprocess_documents_def)

lemma validate_and_clean_not_empty:
  assumes "docs \<noteq> []"
  shows "validate_and_clean docs \<noteq> Inr []"
proof (cases "validate_processed_chunks docs")
  case (Inl e)
  then have "validate_and_clean docs = Inr docs" by (rule validate_and_clean_fallback)
  with assms show ?thesis by simp
next
  case (Inr rows)
  from validate_and_clean_Inr [OF Inr] assms show ?thesis
    by (simp split: if_splits)
qed

text \<open>
  Claim C2. The validation never turns a non-empty list of chunks into the empty list;
  when every chunk the loader has aggregated is flagged, it raises the
  \<^verbatim>\<open>ValueError\<close> of line 398 instead.
\<close>

theorem never_empty_corpus:
  "(docs \<noteq> [] \<longrightarrow> validate_and_clean docs \<noteq> Inr [])
   \<and> (manifest_loop env entries ([], 0, 0) = Inr (docs, s, f)
        \<and> docs \<noteq> [] \<and> (\<forall>d \<in> set docs. is_problematic d)
      \<longrightarrow> validate_and_clean docs = Inl ValueError)"
proof (intro conjI impI)
  assume "docs \<noteq> []"
  then show "validate_and_clean docs \<noteq> Inr []" by (rule validate_and_clean_not_empty)
next
  assume a: "manifest_loop env entries ([], 0, 0) = Inr (docs, s, f)
        \<and> docs \<noteq> [] \<and> (\<forall>d \<in> set docs. is_problematic d)"
  then obtain rows where rows: "validate_processed_chunks docs = Inr rows"
    using loader_chunks_validate by blast
  from a obtain d where "d \<in> set docs" by (cases docs) auto
  with a have ex: "\<exists>d \<in> set docs. is_problematic d" by blast
  from a have none: "filter (\<lambda>d. \<not> is_problematic d) docs = []"
    by (simp add: filter_empty_conv)
  from validate_and_clean_Inr [OF rows] ex none
  show "validate_and_clean docs = Inl ValueError" by simp
qed

theorem never_empty_corpus_witness:
  "manifest_loop sample_env [cite_entry] ([], 0, 0) = Inr ([cite_chunk], 1, 0)
   \<and> is_problematic cite_chunk
   \<and> validate_and_clean [cite_chunk] = Inl ValueError
   \<and> validate_and_clean [cite_chunk] \<noteq> Inr []"
proof -
  have h1: "manifest_loop sample_env [cite_entry] ([], 0, 0) = Inr ([cite_chunk], 1, 0)"
    by code_simp
  have h2: "is_problematic cite_chunk" by code_simp
  have h3: "[cite_chunk] \<noteq> []" by simp
  from h2 have h4: "\<forall>d \<in> set [cite_chunk]. is_problematic d" by simp
  note inst = never_empty_corpus [of "[cite_chunk]" sample_env "[cite_entry]" 1 0]
  from inst h1 h3 h4 have "validate_and_clean [cite_chunk] = Inl ValueError" by blast
  moreover from inst h3 have "validate_and_clean [cite_chunk] \<noteq> Inr []" by blast
  ultimately show ?thesis using h1 h2 by blast
qed

text \<open>
  Claim C3. A chunk is flagged exactly under the three-way condition of lines 198 to
  200, and what the loader returns after validation is the aggregated list without its
  flagged chunks, in the same order; a chunk whose text is
  \<^verbatim>\<open>Suggested citation: USDA (2020).\<close> is flagged whatever its word count and is
  never among the survivors.
\<close>

theorem survivors_are_unflagged:
  "(is_problematic doc \<longleftrightarrow>
      (2 \<le> count_matches admin_keywords (lower (page_content doc))
       \<and> count_matches NUTRITION_KEYWORDS (lower (page_content doc)) < 2
       \<and> length (split_ws (lower (page_content doc))) < 300)
      \<or> str_in ''suggested citation'' (lower (page_content doc))
      \<or> (str_in ''dietaryguidelines.gov'' (lower (page_content doc))
         \<and> count_matches NUTRITION_KEYWORDS (lower (page_content doc)) < 3))
   \<and> (manifest_loop env entries ([], 0, 0) = Inr (docs, s, f)
        \<and> validate_and_clean docs = Inr out
      \<longrightarrow> out = filter (\<lambda>d. \<not> is_problematic d) docs
          \<and> (\<forall>d. d \<in> set out \<longleftrightarrow> d \<in> set docs \<and> \<not> is_problematic d)
          \<and> (\<forall>d. page_content d = ''Suggested citation: USDA (2020).''
                 \<longrightarrow> is_problematic d \<and> d \<notin> set out))"
proof (intro conjI impI)
  show "is_problematic doc \<longleftrightarrow>
      (2 \<le> count_matches admin_keywords (lower (page_content doc))
       \<and> count_matches NUTRITION_KEYWORDS (lower (page_content doc)) < 2
       \<and> length (split_ws (lower (page_content doc))) < 300)
      \<or> str_in ''suggested citation'' (lower (page_content doc))
      \<or> (str_in ''dietaryguidelines.gov'' (lower (page_content doc))
         \<and> count_matches NUTRITION_KEYWORDS (lower (page_content doc)) < 3)"
    by (simp add: is_problematic_def Let_def)
next
  assume a: "manifest_loop env entries ([], 0, 0) = Inr (docs, s, f)
        \<and> validate_and_clean docs = Inr out"
  then obtain rows where rows: "validate_processed_chunks docs = Inr rows"
    using loader_chunks_validate by blast
  have out: "out = filter (\<lambda>d. \<not> is_problematic d) docs"
  proof (cases "\<exists>d \<in> set docs. is_problematic d")
    case True
    with validate_and_clean_Inr [OF rows] a show ?thesis
      by (simp split: if_splits)
  next
    case False
    with validate_and_clean_Inr [OF rows] a have "out = docs" by simp
    moreover from False have "filter (\<lambda>d. \<not> is_problematic d) docs = docs"
      by (simp add: filter_id_conv)
    ultimately show ?thesis by simp
  qed
  have cit: "is_problematic d" if "page_content d = ''Suggested citation: USDA (2020).''" for d
  proof -
    have "str_in ''suggested citation'' (lower ''Suggested citation: USDA (2020).'')"
      by code_simp
    with that show ?thesis by (simp add: is_problematic_def Let_def)
  qed
  show "out = filter (\<lambda>d. \<not> is_problematic d) docs" by (rule out)
  show "\<forall>d. d \<in> set out \<longleftrightarrow> d \<in> set docs \<and> \<not> is_problematic d"
    by (simp add: out)
  show "\<forall>d. page_content d = ''Suggested citation: USDA (2020).''
                 \<longrightarrow> is_problematic d \<and> d \<notin> set out"
    using cit by (simp add: out)
qed

theorem survivors_are_unflagged_witness:
  "manifest_loop sample_env [missing_entry, guide_entry] ([], 0, 0)
     = Inr ([citation_chunk, guide_chunk], 1, 1)
   \<and> validate_and_clean [citation_chunk, guide_chunk] = Inr [guide_chunk]
   \<and> page_content citation_chunk = ''Suggested citation: USDA (2020).''
   \<and> is_problematic citation_chunk \<and> citation_chunk \<notin> set [guide_chunk]
   \<and> [guide_chunk] = filter (\<lambda>d. \<not> is_problematic d) [citation_chunk, guide_chunk]"
proof -
  have h1: "manifest_loop sample_env [missing_entry, guide_entry] ([], 0, 0)
     = Inr ([citation_chunk, guide_chunk], 1, 1)" by code_simp
  have h2: "validate_and_clean [citation_chunk, guide_chunk] = Inr [guide_chunk]" by code_simp
  have h3: "page_content citation_chunk = ''Suggested citation: USDA (2020).''"
    by (simp add: citation_chunk_def)
  note inst = survivors_are_unflagged [of citation_chunk sample_env
      "[missing_entry, guide_entry]" "[citation_chunk, guide_chunk]" 1 1 "[guide_chunk]"]
  from inst h1 h2
  have a: "[guide_chunk] = filter (\<lambda>d. \<not> is_problematic d) [citation_chunk, guide_chunk]"
    by blast
  from inst h1 h2 h3
  have b: "is_problematic citation_chunk \<and> citation_chunk \<notin> set [guide_chunk]"
    by blast
  from h1 h2 h3 a b show ?thesis by blast
qed

text \<open>
  Claim C9. When the flagging itself raises, the loader's validation returns the whole
  list it was given: nothing is removed and no error leaves it. (In the model the
  flagging raises on a flagged document whose metadata lacks \<^verbatim>\<open>source\<close> or
  \<^verbatim>\<open>page\<close>.)
\<close>

theorem validation_failure_falls_back:
  assumes "validate_processed_chunks docs = Inl e"
  shows "validate_and_clean docs = Inr docs"
  using assms by (rule validate_and_clean_fallback)

theorem validation_failure_falls_back_witness:
  "validate_processed_chunks [bare_chunk, guide_chunk] = Inl KeyError
   \<and> is_problematic bare_chunk
   \<and> validate_and_clean [bare_chunk, guide_chunk] = Inr [bare_chunk, guide_chunk]"
proof -
  have h: "validate_processed_chunks [bare_chunk, guide_chunk] = Inl KeyError" by code_simp
  have p: "is_problematic bare_chunk" by code_simp
  from validation_failure_falls_back [OF h] h p show ?thesis by blast
qed

text \<open>
  Claim C10. An empty aggregate passes the validation as the empty list, so a run whose
  entries all failed or produced nothing returns the empty sequence; the
  \<^verbatim>\<open>ValueError\<close> of the validation arises only from a non-empty list with a flagged
  chunk whose removal leaves nothing.
\<close>

theorem empty_aggregate_is_returned:
  "validate_and_clean [] = Inr []
   \<and> (path_exists env manifest_path \<and> safe_load env manifest_path = Some corpus
        \<and> manifest_entries corpus = Inr entries
        \<and> manifest_loop env entries ([], 0, 0) = Inr ([], s, f)
      \<longrightarrow> load_and_preprocess_documents env manifest_path = Inr [])
   \<and> (validate_and_clean docs = Inl e
      \<longrightarrow> e = ValueError \<and> docs \<noteq> [] \<and> (\<exists>d \<in> set docs. is_problematic d)
          \<and> filter (\<lambda>d. \<not> is_problematic d) docs = [])"
proof (intro conjI impI)
  show e: "validate_and_clean [] = Inr []"
    by (simp add: validate_and_clean_def validate_processed_chunks_def)
  assume "path_exists env manifest_path \<and> safe_load env manifest_path = Some corpus
        \<and> manifest_entries corpus = Inr entries
        \<and> manifest_loop env entries ([], 0, 0) = Inr ([], s, f)"
  then have "load_and_preprocess_documents env manifest_path = validate_and_clean []"
    using load_unfold by blast
  with e show "load_and_preprocess_documents env manifest_path = Inr []" by simp
next
  assume a: "validate_and_clean docs = Inl e"
  then obtain rows where rows: "validate_processed_chunks docs = Inr rows"
    by (cases "validate_processed_chunks docs") (auto dest: validate_and_clean_fallback)
  from validate_and_clean_Inr [OF rows] a
  have r: "e = ValueError \<and> (\<exists>d \<in> set docs. is_problematic d)
          \<and> filter (\<lambda>d. \<not> is_problematic d) docs = []"
    by (auto split: if_splits)
  from r show "e = ValueError" by simp
  from r show "docs \<noteq> []" by auto
  from r show "\<exists>d \<in> set docs. is_problematic d" by simp
  from r show "filter (\<lambda>d. \<not> is_problematic d) docs = []" by simp
qed

theorem empty_aggregate_is_returned_witness:
  "manifest_loop sample_env [missing_entry] ([], 0, 0) = Inr ([], 0, 1)
   \<and> load_and_preprocess_documents sample_env ''missing.yaml'' = Inr []
   \<and> validate_and_clean [cite_chunk] = Inl ValueError
   \<and> is_problematic cite_chunk"
proof -
  have h1: "path_exists sample_env ''missing.yaml''" by code_simp
  have h2: "safe_load sample_env ''missing.yaml'' = Some (YSeq [missing_entry])" by code_simp
  have h3: "manifest_entries (YSeq [missing_entry]) = Inr [missing_entry]" by simp
  have h4: "manifest_loop sample_env [missing_entry] ([], 0, 0) = Inr ([], 0, 1)" by code_simp
  have h5: "validate_and_clean [cite_chunk] = Inl ValueError" by code_simp
  note inst = empty_aggregate_is_returned [of sample_env "''missing.yaml''"
      "YSeq [missing_entry]" "[missing_entry]" 0 1 "[cite_chunk]" ValueError]
  from inst h1 h2 h3 h4
  have a: "load_and_preprocess_documents sample_env ''missing.yaml'' = Inr []" by blast
  from inst h5 have "\<exists>d \<in> set [cite_chunk]. is_problematic d" by blast
  then have b: "is_problematic cite_chunk" by simp
  from h4 a h5 b show ?thesis by blast
qed

section \<open>The document type\<close>

lemma process_page_document_type:
  assumes "process_page entry file_path doc_type total_pages page_num page = Some chunk"
  shows "map_of (metadata chunk) ''document_type'' = Some (MStr doc_type)"
  using assms by (rule process_page_SomeD) simp

lemma lower_method_InrD: "lower_method v = Inr l \<Longrightarrow> \<exists>ident. v = YStr ident \<and> l = lower ident"
  by (cases v) auto

text \<open>
  Claim C4, as amended. Every chunk of a document carries the document type computed
  from the lowered manifest id alone: \<^verbatim>\<open>nutrient_specific\<close> when the id contains one
  of nutrient, sodium, sugar, fat, vitamin, else \<^verbatim>\<open>summary\<close> when it contains summary
  or executive, else \<^verbatim>\<open>core_guideline\<close>. The topics play no part, so the chunks of
  an entry with id \<^verbatim>\<open>dga_2020\<close> are of type \<^verbatim>\<open>core_guideline\<close>, whatever its topics.
\<close>

theorem document_type_from_id:
  assumes "process_single_document env entry = Inr docs" and "d \<in> set docs"
  shows "\<exists>ident. getitem entry ''id'' = Inr (YStr ident)
     \<and> map_of (metadata d) ''document_type'' = Some (MStr
          (if any_match [''nutrient'', ''sodium'', ''sugar'', ''fat'', ''vitamin''] (lower ident)
           then ''nutrient_specific''
           else if str_in ''summary'' (lower ident) \<or> str_in ''executive'' (lower ident)
           then ''summary''
           else ''core_guideline''))
     \<and> (ident = ''dga_2020''
          \<longrightarrow> map_of (metadata d) ''document_type'' = Some (MStr ''core_guideline''))"
proof -
  from assms(1) obtain file_path id_value id_lower pages where
    iv: "getitem entry ''id'' = Inr id_value"
    and il: "lower_method id_value = Inr id_lower"
    and docs: "docs = process_pages entry file_path (determine_document_type id_lower) pages"
    by (rule process_single_document_InrD)
  from il obtain ident where ident: "id_value = YStr ident" "id_lower = lower ident"
    using lower_method_InrD by blast
  from assms(2) docs obtain page_num page where
    "process_page entry file_path (determine_document_type id_lower) (length pages) page_num page
       = Some d"
    using process_pages_chunk by blast
  then have m: "map_of (metadata d) ''document_type''
                = Some (MStr (determine_document_type (lower ident)))"
    using ident(2) by (simp add: process_page_document_type)
  have dga: "determine_document_type (lower ''dga_2020'') = ''core_guideline''"
    by code_simp
  show ?thesis
  proof (intro exI conjI impI)
    show "getitem entry ''id'' = Inr (YStr ident)" using iv ident(1) by simp
    show "map_of (metadata d) ''document_type'' = Some (MStr
          (if any_match [''nutrient'', ''sodium'', ''sugar'', ''fat'', ''vitamin''] (lower ident)
           then ''nutrient_specific''
           else if str_in ''summary'' (lower ident) \<or> str_in ''executive'' (lower ident)
           then ''summary''
           else ''core_guideline''))"
      using m by (simp only: determine_document_type_def)
    assume "ident = ''dga_2020''"
    with m dga
    show "map_of (metadata d) ''document_type'' = Some (MStr ''core_guideline'')"
      by (simp only:)
  qed
qed

theorem document_type_from_id_witness:
  "process_single_document sample_env sample_entry = Inr [scenario_a_chunk]
   \<and> getitem sample_entry ''id'' = Inr (YStr ''dga_2020'')
   \<and> map_of (metadata scenario_a_chunk) ''document_type'' = Some (MStr ''core_guideline'')"
proof -
  have h1: "process_single_document sample_env sample_entry = Inr [scenario_a_chunk]"
    by code_simp
  have h2: "scenario_a_chunk \<in> set [scenario_a_chunk]" by simp
  have h3: "getitem sample_entry ''id'' = Inr (YStr ''dga_2020'')"
    by (simp add: sample_entry_def)
  from document_type_from_id [OF h1 h2] obtain ident where
    i: "getitem sample_entry ''id'' = Inr (YStr ident)"
    and c: "ident = ''dga_2020''
          \<longrightarrow> map_of (metadata scenario_a_chunk) ''document_type'' = Some (MStr ''core_guideline'')"
    by blast
  from i h3 have "ident = ''dga_2020''" by simp
  with c have "map_of (metadata scenario_a_chunk) ''document_type'' = Some (MStr ''core_guideline'')"
    by blast
  with h1 h3 show ?thesis by blast
qed

text \<open>
  Scenario A of the spec, run through the loader: the entry has id \<^verbatim>\<open>dga_2020\<close> and
  topics \<^verbatim>\<open>[sodium]\<close>, the contents page is skipped, the sodium page is admitted, and
  its chunk has document type \<^verbatim>\<open>core_guideline\<close>, not \<^verbatim>\<open>nutrient_specific\<close>.
\<close>

theorem scenario_a_is_core_guideline:
  "getitem sample_entry ''id'' = Inr (YStr ''dga_2020'')
   \<and> getitem sample_entry ''topics'' = Inr (YSeq [YStr ''sodium''])
   \<and> load_and_preprocess_documents sample_env ''scenario_a.yaml'' = Inr [scenario_a_chunk]
   \<and> map_of (metadata scenario_a_chunk) ''document_type'' = Some (MStr ''core_guideline'')
   \<and> map_of (metadata scenario_a_chunk) ''document_type'' \<noteq> Some (MStr ''nutrient_specific'')"
proof -
  have "load_and_preprocess_documents sample_env ''scenario_a.yaml'' = Inr [scenario_a_chunk]"
    by code_simp
  then show ?thesis
    by (simp add: sample_entry_def scenario_a_chunk_def)
qed

section \<open>Failures of single entries\<close>

text \<open>
  An entry that carries an \<^verbatim>\<open>id\<close> and fails, for a missing file or for any other
  exception of its processing, is counted and skipped, and the loop goes on.
\<close>

lemma getitem_InrD: "getitem entry k = Inr v \<Longrightarrow> \<exists>kvs. entry = YMap kvs \<and> map_of kvs k = Some v"
  by (cases entry) (auto split: option.splits)

lemma failed_entry_is_counted:
  assumes "entry_body env entry = Inl e" and "getitem entry ''id'' = Inr i"
  shows "manifest_loop env (entry # rest) (all_documents, s, f)
         = manifest_loop env rest (all_documents, s, f + 1)"
  using assms by simp

lemma missing_file_fails_entry:
  assumes "getitem entry ''id'' = Inr i" and "getitem entry ''path'' = Inr (YStr p)"
    and "\<not> path_exists env p"
  shows "entry_body env entry = Inl FileNotFoundError"
proof -
  from assms(1) obtain kvs where "entry = YMap kvs" using getitem_InrD by blast
  with assms show ?thesis by (simp add: entry_body_def)
qed

lemma missing_file_is_skipped:
  assumes "getitem entry ''id'' = Inr i" and "getitem entry ''path'' = Inr (YStr p)"
    and "\<not> path_exists env p"
  shows "manifest_loop env (entry # rest) (all_documents, s, f)
         = manifest_loop env rest (all_documents, s, f + 1)"
  using missing_file_fails_entry [OF assms] assms(1) by (rule failed_entry_is_counted)

lemma entry_with_id_never_stops_loop:
  assumes "getitem entry ''id'' = Inr i"
  shows "manifest_loop env (entry # rest) (all_documents, s, f)
           = manifest_loop env rest (all_documents, s, f + 1)
         \<or> (\<exists>docs. entry_body env entry = Inr docs
               \<and> manifest_loop env (entry # rest) (all_documents, s, f)
                   = manifest_loop env rest (all_documents @ docs, s + 1, f))"
  using assms by (cases "entry_body env entry") simp_all

lemma entry_without_id_stops_loop:
  assumes "getitem entry ''id'' = Inl e"
  shows "manifest_loop env (entry # rest) st = Inl e"
proof -
  obtain a s f where st: "st = (a, s, f)" by (cases st)
  from assms have "entry_body env entry = Inl e" by (simp add: entry_body_def)
  with assms st show ?thesis by simp
qed

text \<open>
  Claim C8. The handler of the manifest loop formats \<^verbatim>\<open>entry['id']\<close> into its log
  line, so for an entry without an \<^verbatim>\<open>id\<close> the \<^verbatim>\<open>KeyError\<close> raised in the
  \<^verbatim>\<open>try\<close> is caught and then raised again by the handler itself: the whole run
  fails with \<^verbatim>\<open>KeyError\<close>, although the file of that entry is merely missing and the
  next entry would have given a chunk. With an \<^verbatim>\<open>id\<close> on the entry whose file is
  missing, the same run returns that chunk.
\<close>

theorem entry_without_id_aborts_run:
  "getitem no_id_entry ''id'' = Inl KeyError
   \<and> load_and_preprocess_documents sample_env ''no_id.yaml'' = Inl KeyError
   \<and> load_and_preprocess_documents sample_env ''guide.yaml'' = Inr [guide_chunk]"
  by code_simp

end
